theory Spec2Isabelle
  imports Main "HOL-Library.Word"
begin

section \<open>Machine integers and characters\<close>

text \<open>
  The program's \<open>int\<close> is a 32-bit two's complement integer: a \<open>32 word\<close>, read
  through \<open>sint\<close>. Addition on words wraps around, which is what the usual compilers
  make of the (formally undefined) signed overflow of \<open>nextId++\<close> and \<open>maxId + 1\<close>.
\<close>

type_synonym cint = "32 word"

definition INT_MAX :: int where
  "INT_MAX = 2147483647"

definition INT_MIN :: int where
  "INT_MIN = - 2147483648"

definition nl :: char where
  "nl = CHR 0x0A"

definition sp :: char where
  "sp = CHR 0x20"

text \<open>\<open>std::isspace\<close> and \<open>std::isdigit\<close> in the classic locale.\<close>

definition isspace :: "char \<Rightarrow> bool" where
  "isspace c = (c = CHR 0x20 \<or> c = CHR 0x09 \<or> c = CHR 0x0A \<or> c = CHR 0x0B
      \<or> c = CHR 0x0C \<or> c = CHR 0x0D)"

definition isdigit :: "char \<Rightarrow> bool" where
  "isdigit c = (48 \<le> (of_char c :: nat) \<and> (of_char c :: nat) \<le> 57)"

definition digit_val :: "char \<Rightarrow> nat" where
  "digit_val c = of_char c - 48"

definition digit_char :: "nat \<Rightarrow> char" where
  "digit_char d = char_of (48 + d)"

text \<open>The value of a run of decimal digits, most significant first.\<close>

definition dec_val :: "string \<Rightarrow> nat" where
  "dec_val ds = foldl (\<lambda>a c. 10 * a + digit_val c) 0 ds"

section \<open>Formatted output: \<open>operator<<\<close>\<close>

function show_nat :: "nat \<Rightarrow> string" where
  "show_nat n = (if n < 10 then [digit_char n] else show_nat (n div 10) @ [digit_char (n mod 10)])"
  by pat_completeness auto
termination
  by (relation "measure (\<lambda>n. n)") auto

declare show_nat.simps [simp del]

text \<open>\<open>os << int\<close> with the default flags: decimal, a minus sign for negatives.\<close>

definition show_int :: "int \<Rightarrow> string" where
  "show_int i = (if i < 0 then CHR ''-'' # show_nat (nat (- i)) else show_nat (nat i))"

text \<open>\<open>os << bool\<close> without \<open>boolalpha\<close>.\<close>

definition show_bool :: "bool \<Rightarrow> string" where
  "show_bool b = (if b then ''1'' else ''0'')"

section \<open>Task\<close>

record Task =
  description :: string
  completed :: bool
  id' :: cint

text \<open>The constructor \<open>Task(int taskId, const std::string& desc)\<close>.\<close>

definition new_Task :: "cint \<Rightarrow> string \<Rightarrow> Task" where
  "new_Task taskId desc = \<lparr>description = desc, completed = False, id' = taskId\<rparr>"

definition toggleComplete :: "Task \<Rightarrow> Task" where
  "toggleComplete t = t\<lparr>completed := \<not> completed t\<rparr>"

definition isCompleted :: "Task \<Rightarrow> bool" where
  "isCompleted t = completed t"

definition getId :: "Task \<Rightarrow> cint" where
  "getId t = id' t"

definition getDescription :: "Task \<Rightarrow> string" where
  "getDescription t = description t"

definition setDescription :: "string \<Rightarrow> Task \<Rightarrow> Task" where
  "setDescription desc t = t\<lparr>description := desc\<rparr>"

section \<open>Input streams\<close>

text \<open>
  An input stream is the text not yet read together with its state bits. \<open>badbit\<close>
  is never set by an operation the program uses, so \<open>fail()\<close> is \<open>failbit\<close>.
\<close>

record istream =
  buf :: string
  eofbit :: bool
  failbit :: bool

definition open_istream :: "string \<Rightarrow> istream" where
  "open_istream text = \<lparr>buf = text, eofbit = False, failbit = False\<rparr>"

definition good :: "istream \<Rightarrow> bool" where
  "good s = (\<not> eofbit s \<and> \<not> failbit s)"

text \<open>
  \<open>istream::sentry\<close>: on a stream that is not good it sets \<open>failbit\<close> and fails;
  otherwise, unless \<open>noskipws\<close>, it discards leading whitespace and fails with
  \<open>eofbit | failbit\<close> when that reaches the end of the input.
\<close>

definition sentry :: "bool \<Rightarrow> istream \<Rightarrow> bool \<times> istream" where
  "sentry noskipws s =
     (if \<not> good s then (False, s\<lparr>failbit := True\<rparr>)
      else if noskipws then (True, s)
      else (let r = dropWhile isspace (buf s)
            in if r = [] then (False, s\<lparr>buf := [], eofbit := True, failbit := True\<rparr>)
               else (True, s\<lparr>buf := r\<rparr>)))"

text \<open>An optional sign in front of a number: whether it is a minus, and the rest.\<close>

definition get_sign :: "string \<Rightarrow> bool \<times> string" where
  "get_sign r =
     (case r of
        [] \<Rightarrow> (False, [])
      | c # r' \<Rightarrow> if c = CHR ''-'' then (True, r')
                  else if c = CHR ''+'' then (False, r')
                  else (False, c # r'))"

text \<open>
  \<open>is >> n\<close> for an \<open>int\<close> variable holding \<open>n\<close>: the new value of the variable and
  the stream. When the sentry fails the variable is left as it was. Otherwise an optional
  sign and the longest run of digits are consumed; no digit stores 0 and sets
  \<open>failbit\<close>, a value out of the range of \<open>int\<close> stores the nearest bound and sets
  \<open>failbit\<close>; reaching the end of the input while scanning sets \<open>eofbit\<close>.
\<close>

definition extract_int :: "cint \<Rightarrow> istream \<Rightarrow> cint \<times> istream" where
  "extract_int n s =
     (case sentry False s of
        (False, s') \<Rightarrow> (n, s')
      | (True, s') \<Rightarrow>
          (case get_sign (buf s') of
             (neg, r1) \<Rightarrow>
               (let ds = takeWhile isdigit r1;
                    r2 = dropWhile isdigit r1;
                    l = (if neg then - int (dec_val ds) else int (dec_val ds));
                    s2 = s'\<lparr>buf := r2, eofbit := (r2 = [])\<rparr>
                in if ds = [] then (0, s2\<lparr>failbit := True\<rparr>)
                   else if l < INT_MIN then (word_of_int INT_MIN, s2\<lparr>failbit := True\<rparr>)
                   else if l > INT_MAX then (word_of_int INT_MAX, s2\<lparr>failbit := True\<rparr>)
                   else (word_of_int l, s2))))"

text \<open>\<open>is.ignore()\<close>: discards one character; at the end of the input sets \<open>eofbit\<close>.\<close>

definition ignore :: "istream \<Rightarrow> istream" where
  "ignore s =
     (case sentry True s of
        (False, s') \<Rightarrow> s'
      | (True, s') \<Rightarrow>
          (case buf s' of
             [] \<Rightarrow> s'\<lparr>eofbit := True\<rparr>
           | c # r \<Rightarrow> s'\<lparr>buf := r\<rparr>))"

text \<open>
  \<open>std::getline(is, str)\<close> for a string variable holding \<open>str\<close>: when the sentry fails
  the variable is left as it was. Otherwise the variable is cleared and receives the
  characters up to the next newline, which is consumed and not stored; the end of the
  input sets \<open>eofbit\<close>, and \<open>failbit\<close> as well when nothing at all was extracted.
\<close>

definition getline :: "string \<Rightarrow> istream \<Rightarrow> string \<times> istream" where
  "getline str s =
     (case sentry True s of
        (False, s') \<Rightarrow> (str, s')
      | (True, s') \<Rightarrow>
          (let l = takeWhile (\<lambda>c. c \<noteq> nl) (buf s');
               r = dropWhile (\<lambda>c. c \<noteq> nl) (buf s')
           in case r of
                [] \<Rightarrow> (l, s'\<lparr>buf := [], eofbit := True, failbit := (l = [])\<rparr>)
              | c # r' \<Rightarrow> (l, s'\<lparr>buf := r'\<rparr>)))"

section \<open>The file system\<close>

text \<open>
  What the program sees of the file system: \<open>files fs p\<close> is the text of the file
  at path \<open>p\<close> when a \<open>std::ifstream\<close> on \<open>p\<close> opens, and \<open>None\<close> when it
  does not (no such file); \<open>writable fs p\<close> says whether a \<open>std::ofstream\<close> on \<open>p\<close>
  opens. Opening for writing truncates, and the text written replaces the file.
\<close>

record filesystem =
  files :: "string \<Rightarrow> string option"
  writable :: "string \<Rightarrow> bool"

datatype exception = runtime_error string

fun what :: "exception \<Rightarrow> string" where
  "what (runtime_error msg) = msg"

section \<open>FileHandler\<close>

record FileHandler =
  filename :: string

definition new_FileHandler :: "string \<Rightarrow> FileHandler" where
  "new_FileHandler fname = \<lparr>filename = fname\<rparr>"

text \<open>
  Every operation on the stream consumes no more than it was given, and a successful
  extraction of an integer consumes at least one character: the loop of \<open>loadTasks\<close>
  terminates.
\<close>

lemma sentry_length: "length (buf (snd (sentry b s))) \<le> length (buf s)"
  by (simp add: sentry_def Let_def length_dropWhile_le)

lemma get_sign_length: "length (snd (get_sign r)) \<le> length r"
  by (simp add: get_sign_def split: list.splits)

lemma extract_int_length: "length (buf (snd (extract_int n s))) \<le> length (buf s)"
proof -
  obtain ok s' where a: "sentry False s = (ok, s')" by (cases "sentry False s")
  obtain neg r1 where b: "get_sign (buf s') = (neg, r1)" by (cases "get_sign (buf s')")
  have 1: "length (buf s') \<le> length (buf s)" using sentry_length [of False s] a by simp
  have 2: "length r1 \<le> length (buf s')" using get_sign_length [of "buf s'"] b by simp
  have 3: "length (dropWhile isdigit r1) \<le> length r1" by (rule length_dropWhile_le)
  show ?thesis using 1 2 3 by (cases ok) (simp_all add: extract_int_def a b Let_def)
qed

lemma extract_int_ok_less:
  assumes "\<not> failbit (snd (extract_int n s))"
  shows "length (buf (snd (extract_int n s))) < length (buf s)"
proof -
  obtain ok s' where a: "sentry False s = (ok, s')" by (cases "sentry False s")
  obtain neg r1 where b: "get_sign (buf s') = (neg, r1)" by (cases "get_sign (buf s')")
  have 1: "length (buf s') \<le> length (buf s)" using sentry_length [of False s] a by simp
  have 2: "length r1 \<le> length (buf s')" using get_sign_length [of "buf s'"] b by simp
  have ok: "ok"
    using assms a by (cases ok) (auto simp: extract_int_def sentry_def Let_def split: if_splits)
  have nf: "\<not> failbit s'"
    using a ok by (auto simp: sentry_def good_def Let_def split: if_splits)
  have ds: "takeWhile isdigit r1 \<noteq> []"
    using assms nf by (auto simp: extract_int_def a b ok Let_def split: if_splits)
  have "length (takeWhile isdigit r1) + length (dropWhile isdigit r1) = length r1"
    by (metis length_append takeWhile_dropWhile_id)
  with ds have 3: "length (dropWhile isdigit r1) < length r1"
    by (cases "takeWhile isdigit r1") auto
  show ?thesis using 1 2 3 by (simp add: extract_int_def a b ok Let_def)
qed

lemma ignore_length: "length (buf (ignore s)) \<le> length (buf s)"
  by (auto simp: ignore_def sentry_def split: prod.splits list.splits if_splits)

lemma getline_length: "length (buf (snd (getline d s))) \<le> length (buf s)"
proof -
  have "length (dropWhile (\<lambda>c. c \<noteq> nl) (buf s)) \<le> length (buf s)"
    by (rule length_dropWhile_le)
  then show ?thesis
    by (auto simp: getline_def sentry_def Let_def split: prod.splits list.splits if_splits)
qed

text \<open>
  The loop of \<open>loadTasks\<close>, \<open>while (file >> id >> completed) { ... }\<close>, over the
  variables \<open>id\<close>, \<open>completed\<close> and \<open>desc\<close> declared in front of it, the stream
  and the vector built so far. The condition is \<open>!file.fail()\<close> after both extractions.
\<close>

function loadTasks_loop :: "cint \<Rightarrow> cint \<Rightarrow> string \<Rightarrow> istream \<Rightarrow> Task list \<Rightarrow> Task list" where
  "loadTasks_loop id1 completed1 desc file tasks =
     (case extract_int id1 file of
        (id2, file1) \<Rightarrow>
          (case extract_int completed1 file1 of
             (completed2, file2) \<Rightarrow>
               if failbit file2 then tasks
               else (case getline desc (ignore file2) of
                       (desc2, file3) \<Rightarrow>
                         (let task = new_Task id2 desc2;
                              task = (if completed2 \<noteq> 0 then toggleComplete task else task)
                          in loadTasks_loop id2 completed2 desc2 file3 (tasks @ [task])))))"
  by pat_completeness auto
termination
proof (relation "measure (\<lambda>(i, c, d, f, ts). length (buf f))", goal_cases)
  case 1
  show ?case by simp
next
  case (2 id1 completed1 desc file0 tasks id2 file1 completed2 file2 desc2 file3 task task')
  have a: "length (buf file1) \<le> length (buf file0)"
    using extract_int_length [of id1 file0] 2(1) [symmetric] by simp
  have b: "length (buf file2) < length (buf file1)"
    using extract_int_ok_less [of completed1 file1] 2(2) [symmetric] 2(3) by simp
  have c: "length (buf (ignore file2)) \<le> length (buf file2)"
    by (rule ignore_length)
  have d: "length (buf file3) \<le> length (buf (ignore file2))"
    using getline_length [of desc "ignore file2"] 2(4) [symmetric] by simp
  show ?case using a b c d by simp
qed

declare loadTasks_loop.simps [simp del]

text \<open>
  \<open>FileHandler::loadTasks\<close>. A file that does not open gives the empty vector. The
  variables \<open>id\<close> and \<open>completed\<close> start uninitialised; the loop never reads them
  before an extraction has stored a value (see \<open>loadTasks_loop_init\<close>), so the model
  starts them at 0. \<open>desc\<close> starts empty.
\<close>

definition loadTasks :: "filesystem \<Rightarrow> FileHandler \<Rightarrow> Task list" where
  "loadTasks fs h =
     (case files fs (filename h) of
        None \<Rightarrow> []
      | Some text \<Rightarrow> loadTasks_loop 0 0 [] (open_istream text) [])"

text \<open>The line \<open>saveTasks\<close> writes for one task.\<close>

definition write_task :: "Task \<Rightarrow> string" where
  "write_task task =
     show_int (sint (getId task)) @ [sp] @ show_bool (isCompleted task) @ [sp]
       @ getDescription task @ [nl]"

text \<open>
  \<open>FileHandler::saveTasks\<close>: throws when the file does not open for writing, otherwise
  the file becomes the lines of the tasks, in order.
\<close>

definition saveTasks :: "filesystem \<Rightarrow> FileHandler \<Rightarrow> Task list \<Rightarrow> exception + filesystem" where
  "saveTasks fs h tasks =
     (if \<not> writable fs (filename h)
      then Inl (runtime_error ''Unable to open file for writing'')
      else Inr (fs\<lparr>files := (files fs)(filename h \<mapsto> concat (map write_task tasks))\<rparr>))"

section \<open>ChecklistManager\<close>

record ChecklistManager =
  tasks :: "Task list"
  fileHandler :: FileHandler
  nextId :: cint

text \<open>\<open>std::max\<close> on \<open>int\<close>: the comparison is signed.\<close>

definition std_max :: "cint \<Rightarrow> cint \<Rightarrow> cint" where
  "std_max a b = (if sint a < sint b then b else a)"

definition getNextId :: "Task list \<Rightarrow> cint" where
  "getNextId ts = foldl (\<lambda>maxId task. std_max maxId (getId task)) 0 ts + 1"

text \<open>The constructor: load the tasks, then compute \<open>nextId\<close>.\<close>

definition new_ChecklistManager :: "filesystem \<Rightarrow> string \<Rightarrow> ChecklistManager" where
  "new_ChecklistManager fs fname =
     (let h = new_FileHandler fname;
          ts = loadTasks fs h
      in \<lparr>tasks = ts, fileHandler = h, nextId = getNextId ts\<rparr>)"

text \<open>
  The destructor: saves, and on an exception writes the report to \<open>std::cerr\<close>. The
  result is the text written to \<open>std::cerr\<close> and the file system; nothing is thrown.
\<close>

definition delete_ChecklistManager :: "filesystem \<Rightarrow> ChecklistManager \<Rightarrow> string \<times> filesystem" where
  "delete_ChecklistManager fs m =
     (case saveTasks fs (fileHandler m) (tasks m) of
        Inl e \<Rightarrow> (''Error saving tasks: '' @ what e @ [nl], fs)
      | Inr fs' \<Rightarrow> ([], fs'))"

text \<open>
  The operations return the text they write to \<open>std::cout\<close> and the manager after
  the call.
\<close>

definition addTask :: "string \<Rightarrow> ChecklistManager \<Rightarrow> string \<times> ChecklistManager" where
  "addTask desc m =
     (''Task added successfully!'' @ [nl],
      m\<lparr>tasks := tasks m @ [new_Task (nextId m) desc], nextId := nextId m + 1\<rparr>)"

text \<open>
  \<open>std::remove_if\<close> keeps, in order, the elements that do not satisfy the predicate and
  returns the end of the kept range, here as an index; \<open>erase\<close> cuts the vector there.
\<close>

definition remove_if :: "('a \<Rightarrow> bool) \<Rightarrow> 'a list \<Rightarrow> nat \<times> 'a list" where
  "remove_if p xs = (let kept = filter (\<lambda>x. \<not> p x) xs in (length kept, kept @ drop (length kept) xs))"

definition removeTask :: "cint \<Rightarrow> ChecklistManager \<Rightarrow> string \<times> ChecklistManager" where
  "removeTask i m =
     (case remove_if (\<lambda>task. getId task = i) (tasks m) of
        (it, ts) \<Rightarrow>
          if it \<noteq> length ts
          then (''Task removed successfully!'' @ [nl], m\<lparr>tasks := take it ts\<rparr>)
          else (''Task not found!'' @ [nl], m\<lparr>tasks := ts\<rparr>))"

text \<open>\<open>std::find_if\<close>: the index of the first element that satisfies the predicate, or the length.\<close>

fun find_if :: "('a \<Rightarrow> bool) \<Rightarrow> 'a list \<Rightarrow> nat" where
  "find_if p [] = 0"
| "find_if p (x # xs) = (if p x then 0 else Suc (find_if p xs))"

definition toggleTask :: "cint \<Rightarrow> ChecklistManager \<Rightarrow> string \<times> ChecklistManager" where
  "toggleTask i m =
     (let it = find_if (\<lambda>task. getId task = i) (tasks m)
      in if it \<noteq> length (tasks m)
         then (''Task status toggled!'' @ [nl],
               m\<lparr>tasks := (tasks m)[it := toggleComplete (tasks m ! it)]\<rparr>)
         else (''Task not found!'' @ [nl], m))"

definition list_line :: "Task \<Rightarrow> string" where
  "list_line task =
     ''['' @ show_int (sint (getId task)) @ ''] ''
       @ (if isCompleted task then ''[X] '' else ''[ ] '') @ getDescription task @ [nl]"

definition listTasks :: "ChecklistManager \<Rightarrow> string" where
  "listTasks m =
     (if tasks m = [] then [nl] @ ''No tasks in the checklist.'' @ [nl]
      else [nl] @ ''=== CHECKLIST ==='' @ [nl] @ concat (map list_line (tasks m))
             @ ''================='' @ [nl])"

section \<open>Menu and main\<close>

record Menu =
  manager :: ChecklistManager

definition new_Menu :: "filesystem \<Rightarrow> string \<Rightarrow> Menu" where
  "new_Menu fs fname = \<lparr>manager = new_ChecklistManager fs fname\<rparr>"

definition displayMenu :: string where
  "displayMenu =
     [nl] @ ''--- Checklist Manager ---'' @ [nl] @ ''1. Add Task'' @ [nl]
       @ ''2. Remove Task'' @ [nl] @ ''3. Toggle Task'' @ [nl] @ ''4. List Tasks'' @ [nl]
       @ ''5. Exit'' @ [nl] @ ''Choice: ''"

text \<open>
  \<open>Menu::run\<close>. The loop has no exit but choice 5 and does not end on an input that
  stops before it, so it runs on fuel: \<open>None\<close> is a run that has not returned within
  \<open>fuel\<close> iterations. The state is the variables \<open>choice\<close> and \<open>input\<close>, the menu,
  \<open>std::cin\<close> and the text written to \<open>std::cout\<close>. The local \<open>int id\<close> of the
  cases 2 and 3 is uninitialised; \<open>junk\<close> is the value read from it when the extraction
  leaves it as it was.
\<close>

fun run :: "nat \<Rightarrow> cint \<Rightarrow> cint \<Rightarrow> string \<Rightarrow> Menu \<Rightarrow> istream \<Rightarrow> string
    \<Rightarrow> (Menu \<times> istream \<times> string) option" where
  "run 0 junk choice input menu cin cout = None"
| "run (Suc fuel) junk choice input menu cin cout =
     (case extract_int choice cin of
        (choice1, cin1) \<Rightarrow>
          (let cout1 = cout @ displayMenu;
               cin2 = ignore cin1
           in if choice1 = 1 then
                (case getline input cin2 of
                   (input1, cin3) \<Rightarrow>
                     (case addTask input1 (manager menu) of
                        (msg, m) \<Rightarrow>
                          run fuel junk choice1 input1 (menu\<lparr>manager := m\<rparr>) cin3
                            (cout1 @ ''Enter task description: '' @ msg)))
              else if choice1 = 2 then
                (case extract_int junk cin2 of
                   (i, cin3) \<Rightarrow>
                     (case removeTask i (manager menu) of
                        (msg, m) \<Rightarrow>
                          run fuel junk choice1 input (menu\<lparr>manager := m\<rparr>) cin3
                            (cout1 @ ''Enter task ID to remove: '' @ msg)))
              else if choice1 = 3 then
                (case extract_int junk cin2 of
                   (i, cin3) \<Rightarrow>
                     (case toggleTask i (manager menu) of
                        (msg, m) \<Rightarrow>
                          run fuel junk choice1 input (menu\<lparr>manager := m\<rparr>) cin3
                            (cout1 @ ''Enter task ID to toggle: '' @ msg)))
              else if choice1 = 4 then
                run fuel junk choice1 input menu cin2 (cout1 @ listTasks (manager menu))
              else if choice1 = 5 then
                Some (menu, cin2, cout1 @ ''Saving and exiting...'' @ [nl])
              else
                run fuel junk choice1 input menu cin2 (cout1 @ ''Invalid choice!'' @ [nl])))"

text \<open>
  The \<open>try\<close> block of \<open>main\<close>: the menu is built, run, and destroyed at the end of the
  block, which destroys its manager. \<open>Inr\<close> is the block left normally, with the text
  written to \<open>std::cout\<close> and \<open>std::cerr\<close> and the file system; \<open>Inl\<close> is an
  exception leaving the block. \<open>choice0\<close> is the value read from the uninitialised
  \<open>choice\<close> when the first extraction leaves it as it was. Failure of memory allocation
  is outside the model.
\<close>

definition main_try :: "nat \<Rightarrow> cint \<Rightarrow> cint \<Rightarrow> filesystem \<Rightarrow> string
    \<Rightarrow> (exception + string \<times> string \<times> filesystem) option" where
  "main_try fuel choice0 junk fs stdin =
     (let menu = new_Menu fs ''checklist.txt''
      in case run fuel junk choice0 [] menu (open_istream stdin) [] of
           None \<Rightarrow> None
         | Some (menu', cin', cout') \<Rightarrow>
             (case delete_ChecklistManager fs (manager menu') of
                (cerr', fs') \<Rightarrow> Some (Inr (cout', cerr', fs'))))"

record outcome =
  exit_code :: int
  cout_text :: string
  cerr_text :: string

text \<open>
  \<open>main\<close>: 1 with a report on \<open>std::cerr\<close> when an exception leaves the block, else
  0. The exception carries no record of what the block wrote before it, so that branch
  gives the report alone and the file system \<open>main\<close> started with.
\<close>

definition main :: "nat \<Rightarrow> cint \<Rightarrow> cint \<Rightarrow> filesystem \<Rightarrow> string \<Rightarrow> (outcome \<times> filesystem) option" where
  "main fuel choice0 junk fs stdin =
     (case main_try fuel choice0 junk fs stdin of
        None \<Rightarrow> None
      | Some (Inl e) \<Rightarrow>
          Some (\<lparr>exit_code = 1, cout_text = [], cerr_text = ''Error: '' @ what e @ [nl]\<rparr>, fs)
      | Some (Inr (cout', cerr', fs')) \<Rightarrow>
          Some (\<lparr>exit_code = 0, cout_text = cout', cerr_text = cerr'\<rparr>, fs'))"

section \<open>Notions used by the statements\<close>

text \<open>
  The condition of the loop of \<open>loadTasks\<close> on a stream: both extractions succeed. The
  stream by itself decides it, whatever the variables hold (\<open>loop_condition_any\<close>).
\<close>

definition loop_condition :: "istream \<Rightarrow> bool" where
  "loop_condition file = (\<not> failbit (snd (extract_int 0 (snd (extract_int 0 file)))))"

text \<open>A task whose description has no newline character.\<close>

definition single_line :: "Task \<Rightarrow> bool" where
  "single_line task = (nl \<notin> set (getDescription task))"



text \<open>The ids of a task sequence, as the integers they denote.\<close>

definition ids_of :: "Task list \<Rightarrow> int set" where
  "ids_of ts = (\<lambda>t. sint (getId t)) ` set ts"

text \<open>
  \<open>addTask\<close> called once for each description of a list, in order: the texts written
  to \<open>std::cout\<close> and the store after the last call.
\<close>

fun addTasks :: "string list \<Rightarrow> ChecklistManager \<Rightarrow> string list \<times> ChecklistManager" where
  "addTasks [] m = ([], m)"
| "addTasks (d # ds) m =
     (case addTask d m of
        (msg, m1) \<Rightarrow> (case addTasks ds m1 of (msgs, m2) \<Rightarrow> (msg # msgs, m2)))"





section \<open>Example inputs\<close>

text \<open>A file system with no file at all and nothing writable.\<close>

definition fs_none :: filesystem where
  "fs_none = \<lparr>files = (\<lambda>p. None), writable = (\<lambda>p. False)\<rparr>"

text \<open>A manager holding three tasks, two of them sharing the id 2.\<close>

definition m_three :: ChecklistManager where
  "m_three =
     \<lparr>tasks = [\<lparr>description = ''a'', completed = False, id' = 1\<rparr>,
               \<lparr>description = ''b'', completed = True, id' = 2\<rparr>,
               \<lparr>description = ''c'', completed = False, id' = 2\<rparr>],
      fileHandler = \<lparr>filename = ''checklist.txt''\<rparr>, nextId = 3\<rparr>"

text \<open>A file system with no file where every path is writable.\<close>

definition fs_fresh :: filesystem where
  "fs_fresh = \<lparr>files = (\<lambda>p. None), writable = (\<lambda>p. True)\<rparr>"

text \<open>
  Three tasks: a description with two spaces in a row, a negative id with a description
  that starts with a space and looks like a record, and the largest id with the empty
  description.
\<close>

definition ts_odd :: "Task list" where
  "ts_odd =
     [\<lparr>description = ''Buy  milk'', completed = False, id' = 1\<rparr>,
      \<lparr>description = '' 2 0 x'', completed = True, id' = - 5\<rparr>,
      \<lparr>description = [], completed = False, id' = 2147483647\<rparr>]"






text \<open>The store constructed when there is no file.\<close>

definition m_empty :: ChecklistManager where
  "m_empty = new_ChecklistManager fs_none ''checklist.txt''"

text \<open>A file whose only record has a negative id.\<close>

definition fs_negative :: filesystem where
  "fs_negative = \<lparr>files = (\<lambda>p. Some (''-5 0 x'' @ [nl])), writable = (\<lambda>p. True)\<rparr>"

text \<open>A file whose only record has the largest id an \<open>int\<close> holds.\<close>

definition fs_largest :: filesystem where
  "fs_largest = \<lparr>files = (\<lambda>p. Some (''2147483647 0 x'' @ [nl])), writable = (\<lambda>p. True)\<rparr>"

text \<open>A file with the ids 3, 7 and 1.\<close>

definition fs_371 :: filesystem where
  "fs_371 =
     \<lparr>files = (\<lambda>p. Some (''3 0 a'' @ [nl] @ ''7 1 b c'' @ [nl] @ ''1 0 '' @ [nl])),
      writable = (\<lambda>p. True)\<rparr>"

section \<open>Searching by id\<close>

lemma find_if_le: "find_if p xs \<le> length xs"
  by (induction xs) auto

lemma find_if_absent: "(find_if p xs = length xs) = (\<forall>x\<in>set xs. \<not> p x)"
  using find_if_le [of p] by (induction xs) (auto simp: not_less_eq_eq)

lemma find_if_hit: "find_if p xs < length xs \<Longrightarrow> p (xs ! find_if p xs)"
  by (induction xs) (auto split: if_splits)

lemma find_if_first: "j < find_if p xs \<Longrightarrow> \<not> p (xs ! j)"
proof (induction xs arbitrary: j)
  case Nil
  then show ?case by simp
next
  case (Cons x xs)
  then show ?case by (cases j) (auto split: if_splits)
qed

lemma find_if_update:
  assumes "\<And>x. p (f x) = p x"
  shows "find_if p (xs[k := f (xs ! k)]) = find_if p xs"
proof (induction xs arbitrary: k)
  case Nil
  show ?case by simp
next
  case (Cons x xs)
  show ?case by (cases k) (simp_all add: assms Cons.IH)
qed

lemma filter_absent: "\<forall>x\<in>set xs. \<not> p x \<Longrightarrow> filter (\<lambda>x. \<not> p x) xs = xs"
  by (induction xs) auto

lemma find_if_present:
  assumes "i \<in> getId ` set ts"
  shows "find_if (\<lambda>t. getId t = i) ts < length ts"
proof -
  have "\<not> (\<forall>t\<in>set ts. \<not> getId t = i)" using assms by auto
  then have "find_if (\<lambda>t. getId t = i) ts \<noteq> length ts" by (simp add: find_if_absent)
  then show ?thesis using find_if_le [of "\<lambda>t. getId t = i" ts] by simp
qed

section \<open>The store\<close>

text \<open>
  C3. Constructing the store on a path whose file does not open for reading is not an
  error: the load gives no task, and the store starts with an empty task sequence and
  \<open>nextId\<close> equal to 1.
\<close>

theorem missing_file_empty_store:
  "files fs fname = None \<Longrightarrow>
     loadTasks fs (new_FileHandler fname) = [] \<and>
     tasks (new_ChecklistManager fs fname) = [] \<and>
     nextId (new_ChecklistManager fs fname) = 1"
  by (simp add: new_ChecklistManager_def loadTasks_def new_FileHandler_def getNextId_def Let_def)

theorem missing_file_empty_store_witness:
  "files fs_none ''checklist.txt'' = None \<and>
   loadTasks fs_none (new_FileHandler ''checklist.txt'') = [] \<and>
   tasks (new_ChecklistManager fs_none ''checklist.txt'') = [] \<and>
   nextId (new_ChecklistManager fs_none ''checklist.txt'') = 1"
proof -
  have h: "files fs_none ''checklist.txt'' = None" by (simp add: fs_none_def)
  show ?thesis using h missing_file_empty_store [OF h] by simp
qed

text \<open>
  C6. For an id that no task of the sequence has, \<open>removeTask\<close> and \<open>toggleTask\<close>
  print "Task not found!" and leave the store, so the task sequence, as it was; neither
  throws.
\<close>

theorem absent_id_not_found:
  assumes "i \<notin> getId ` set (tasks m)"
  shows "removeTask i m = (''Task not found!'' @ [nl], m) \<and>
         toggleTask i m = (''Task not found!'' @ [nl], m)"
proof -
  have a: "\<forall>t\<in>set (tasks m). \<not> getId t = i" using assms by auto
  have "filter (\<lambda>t. \<not> getId t = i) (tasks m) = tasks m"
    using a by (rule filter_absent)
  then have r: "remove_if (\<lambda>t. getId t = i) (tasks m) = (length (tasks m), tasks m)"
    by (simp add: remove_if_def Let_def)
  have f: "find_if (\<lambda>t. getId t = i) (tasks m) = length (tasks m)"
    using a by (simp add: find_if_absent)
  show ?thesis by (simp add: removeTask_def toggleTask_def r f)
qed

theorem absent_id_not_found_witness:
  "(5 :: cint) \<notin> getId ` set (tasks m_three) \<and>
   removeTask 5 m_three = (''Task not found!'' @ [nl], m_three) \<and>
   toggleTask 5 m_three = (''Task not found!'' @ [nl], m_three)"
proof -
  have h: "(5 :: cint) \<notin> getId ` set (tasks m_three)"
    by (simp add: m_three_def getId_def)
  show ?thesis using h absent_id_not_found [OF h] by simp
qed

text \<open>
  C7. For an id that some task has, calling \<open>toggleTask\<close> twice in succession gives
  back the store it started from, so the task is in the completion state it had; both
  calls report the toggle, and after the first call the completion flag of the task found
  is the opposite of what it was.
\<close>

theorem toggle_twice_restores:
  assumes "i \<in> getId ` set (tasks m)"
  shows "snd (toggleTask i (snd (toggleTask i m))) = m \<and>
         fst (toggleTask i m) = ''Task status toggled!'' @ [nl] \<and>
         fst (toggleTask i (snd (toggleTask i m))) = ''Task status toggled!'' @ [nl] \<and>
         (let k = find_if (\<lambda>t. getId t = i) (tasks m)
          in isCompleted (tasks (snd (toggleTask i m)) ! k) = (\<not> isCompleted (tasks m ! k)))"
proof -
  let ?p = "\<lambda>t. getId t = i"
  let ?k = "find_if ?p (tasks m)"
  let ?ts = "(tasks m)[?k := toggleComplete (tasks m ! ?k)]"
  have k: "?k < length (tasks m)" using assms by (rule find_if_present)
  have t1: "toggleTask i m = (''Task status toggled!'' @ [nl], m\<lparr>tasks := ?ts\<rparr>)"
    using k by (simp add: toggleTask_def Let_def)
  have same: "find_if ?p ?ts = ?k"
    by (rule find_if_update) (simp add: toggleComplete_def getId_def)
  have restored: "?ts[?k := toggleComplete (?ts ! ?k)] = tasks m"
    using k by (simp add: toggleComplete_def)
  have t2: "toggleTask i (m\<lparr>tasks := ?ts\<rparr>) = (''Task status toggled!'' @ [nl], m)"
    using k same restored by (simp add: toggleTask_def Let_def)
  have flip: "isCompleted (?ts ! ?k) = (\<not> isCompleted (tasks m ! ?k))"
    using k by (simp add: toggleComplete_def isCompleted_def)
  show ?thesis using flip by (simp add: t1 t2 Let_def)
qed

theorem toggle_twice_restores_witness:
  "(2 :: cint) \<in> getId ` set (tasks m_three) \<and>
   snd (toggleTask 2 (snd (toggleTask 2 m_three))) = m_three \<and>
   isCompleted (tasks m_three ! 1) \<and>
   \<not> isCompleted (tasks (snd (toggleTask 2 m_three)) ! 1)"
proof -
  have h: "(2 :: cint) \<in> getId ` set (tasks m_three)"
    by (simp add: m_three_def getId_def)
  have k: "find_if (\<lambda>t. getId t = 2) (tasks m_three) = 1"
    by (simp add: m_three_def getId_def)
  have c: "isCompleted (tasks m_three ! 1)"
    by (simp add: m_three_def isCompleted_def)
  show ?thesis using h c toggle_twice_restores [OF h] by (simp add: k Let_def)
qed

text \<open>
  C10. For an id that some task has, \<open>toggleTask\<close> changes the completion flag of the
  first task with that id and nothing else: the task sequence is the old one with that
  one flag negated (so ids, descriptions, the other tasks, the length and the order are
  as before), and the other fields of the store are as before.
\<close>

theorem toggleTask_frame:
  assumes "i \<in> getId ` set (tasks m)"
  shows "\<exists>k < length (tasks m).
           getId (tasks m ! k) = i \<and> (\<forall>j < k. getId (tasks m ! j) \<noteq> i) \<and>
           snd (toggleTask i m) =
             m\<lparr>tasks := (tasks m)[k := (tasks m ! k)\<lparr>completed := \<not> completed (tasks m ! k)\<rparr>]\<rparr>"
proof -
  let ?p = "\<lambda>t. getId t = i"
  let ?k = "find_if ?p (tasks m)"
  have k: "?k < length (tasks m)" using assms by (rule find_if_present)
  have 1: "getId (tasks m ! ?k) = i" using find_if_hit [OF k] .
  have 2: "\<forall>j < ?k. getId (tasks m ! j) \<noteq> i"
    using find_if_first [of _ ?p "tasks m"] by blast
  have 3: "snd (toggleTask i m) =
      m\<lparr>tasks := (tasks m)[?k := (tasks m ! ?k)\<lparr>completed := \<not> completed (tasks m ! ?k)\<rparr>]\<rparr>"
    using k by (simp add: toggleTask_def Let_def toggleComplete_def)
  show ?thesis using k 1 2 3 by blast
qed

theorem toggleTask_frame_witness:
  "(2 :: cint) \<in> getId ` set (tasks m_three) \<and>
   (\<exists>k < length (tasks m_three).
      getId (tasks m_three ! k) = 2 \<and> (\<forall>j < k. getId (tasks m_three ! j) \<noteq> 2) \<and>
      snd (toggleTask 2 m_three) =
        m_three\<lparr>tasks := (tasks m_three)
          [k := (tasks m_three ! k)\<lparr>completed := \<not> completed (tasks m_three ! k)\<rparr>]\<rparr>) \<and>
   tasks (snd (toggleTask 2 m_three)) =
     [\<lparr>description = ''a'', completed = False, id' = 1\<rparr>,
      \<lparr>description = ''b'', completed = False, id' = 2\<rparr>,
      \<lparr>description = ''c'', completed = False, id' = 2\<rparr>]"
proof -
  have h: "(2 :: cint) \<in> getId ` set (tasks m_three)"
    by (simp add: m_three_def getId_def)
  have e: "tasks (snd (toggleTask 2 m_three)) =
     [\<lparr>description = ''a'', completed = False, id' = 1\<rparr>,
      \<lparr>description = ''b'', completed = False, id' = 2\<rparr>,
      \<lparr>description = ''c'', completed = False, id' = 2\<rparr>]"
    by (simp add: toggleTask_def m_three_def getId_def toggleComplete_def Let_def)
  show ?thesis using h e toggleTask_frame [OF h] by blast
qed

section \<open>Failure of the save\<close>

text \<open>
  C8. \<open>saveTasks\<close> throws exactly when the file does not open for writing, and the
  exception is its result, handed to the caller. In the destructor of the store the
  exception is caught: the destructor returns normally, with the report on \<open>std::cerr\<close>
  and the file system untouched; when the file opens it writes nothing to \<open>std::cerr\<close>.
\<close>

theorem save_failure:
  "isl (saveTasks fs h ts) = (\<not> writable fs (filename h)) \<and>
   (\<not> writable fs (filename h) \<longrightarrow>
      saveTasks fs h ts = Inl (runtime_error ''Unable to open file for writing'')) \<and>
   (\<not> writable fs (filename (fileHandler m)) \<longrightarrow>
      delete_ChecklistManager fs m =
        (''Error saving tasks: Unable to open file for writing'' @ [nl], fs)) \<and>
   (writable fs (filename (fileHandler m)) \<longrightarrow> fst (delete_ChecklistManager fs m) = [])"
  by (simp add: saveTasks_def delete_ChecklistManager_def)

theorem save_failure_witness:
  "\<not> writable fs_none (filename (fileHandler m_three)) \<and>
   isl (saveTasks fs_none (fileHandler m_three) (tasks m_three)) \<and>
   saveTasks fs_none (fileHandler m_three) (tasks m_three) =
     Inl (runtime_error ''Unable to open file for writing'') \<and>
   delete_ChecklistManager fs_none m_three =
     (''Error saving tasks: Unable to open file for writing'' @ [nl], fs_none)"
proof -
  have h: "\<not> writable fs_none (filename (fileHandler m_three))"
    by (simp add: fs_none_def)
  show ?thesis
    using h save_failure [of fs_none "fileHandler m_three" "tasks m_three" m_three]
    by simp
qed

section \<open>Printing and reading back an integer\<close>

lemma digit_char_numeral:
  "digit_char 0 = CHR ''0''" "digit_char 1 = CHR ''1''" "digit_char 2 = CHR ''2''"
  "digit_char 3 = CHR ''3''" "digit_char 4 = CHR ''4''" "digit_char 5 = CHR ''5''"
  "digit_char 6 = CHR ''6''" "digit_char 7 = CHR ''7''" "digit_char 8 = CHR ''8''"
  "digit_char 9 = CHR ''9''" "digit_char (Suc 0) = CHR ''1''"
  by code_simp+

lemma digit_char_isdigit: "d < 10 \<Longrightarrow> isdigit (digit_char d)"
  by (simp add: isdigit_def digit_char_def)

lemma digit_val_digit_char: "d < 10 \<Longrightarrow> digit_val (digit_char d) = d"
  by (simp add: digit_val_def digit_char_def)

lemma show_nat_digits: "c \<in> set (show_nat n) \<Longrightarrow> isdigit c"
proof (induction n rule: show_nat.induct)
  case (1 n)
  show ?case
  proof (cases "n < 10")
    case True
    with "1.prems" show ?thesis by (simp add: show_nat.simps [of n] digit_char_isdigit)
  next
    case False
    with "1.prems" "1.IH" show ?thesis
      by (auto simp: show_nat.simps [of n] digit_char_isdigit)
  qed
qed

lemma show_nat_not_Nil: "show_nat n \<noteq> []"
  by (subst show_nat.simps) simp

lemma dec_val_snoc: "dec_val (ds @ [c]) = 10 * dec_val ds + digit_val c"
  by (simp add: dec_val_def)

lemma dec_val_show_nat: "dec_val (show_nat n) = n"
proof (induction n rule: show_nat.induct)
  case (1 n)
  show ?case
  proof (cases "n < 10")
    case True
    then show ?thesis by (simp add: show_nat.simps [of n] dec_val_def digit_val_digit_char)
  next
    case False
    with "1.IH" show ?thesis
      by (simp add: show_nat.simps [of n] dec_val_snoc digit_val_digit_char)
  qed
qed

lemma isdigit_not_isspace: "isdigit c \<Longrightarrow> \<not> isspace c"
  by (auto simp: isdigit_def isspace_def)

lemma isdigit_not_sign: "isdigit c \<Longrightarrow> c \<noteq> CHR ''-'' \<and> c \<noteq> CHR ''+''"
  by (auto simp: isdigit_def)

lemma show_nat_Cons: "\<exists>h r. show_nat n = h # r \<and> isdigit h"
proof (cases "show_nat n")
  case Nil
  then show ?thesis using show_nat_not_Nil by blast
next
  case (Cons h r)
  then have "h \<in> set (show_nat n)" by simp
  then show ?thesis using Cons show_nat_digits by blast
qed

lemma scan_digits:
  assumes "\<not> isdigit c"
  shows "takeWhile isdigit (show_nat n @ c # rest) = show_nat n"
    and "dropWhile isdigit (show_nat n @ c # rest) = c # rest"
  using assms show_nat_digits by (simp_all add: takeWhile_tail dropWhile_append)

lemma get_sign_show_int:
  "get_sign (show_int i @ r) = (i < 0, show_nat (nat \<bar>i\<bar>) @ r)"
proof (cases "i < 0")
  case True
  then show ?thesis by (simp add: get_sign_def show_int_def abs_if)
next
  case False
  obtain h t where ht: "show_nat (nat i) = h # t" "isdigit h"
    using show_nat_Cons by blast
  with False isdigit_not_sign [of h] show ?thesis
    by (simp add: get_sign_def show_int_def abs_if)
qed

lemma skip_to_show_int:
  assumes "\<forall>x\<in>set ws. isspace x"
  shows "dropWhile isspace (ws @ show_int i @ r) = show_int i @ r"
proof -
  obtain h t where ht: "show_nat (nat \<bar>i\<bar>) = h # t" "isdigit h"
    using show_nat_Cons by blast
  have "\<exists>h' t'. show_int i = h' # t' \<and> \<not> isspace h'"
    using ht isdigit_not_isspace [of h]
    by (cases "i < 0") (auto simp: show_int_def isspace_def abs_if)
  then obtain h' t' where "show_int i = h' # t'" "\<not> isspace h'" by blast
  with assms show ?thesis by (simp add: dropWhile_append)
qed

lemma sint_in_range: "INT_MIN \<le> sint (w :: cint) \<and> sint w \<le> INT_MAX"
  using sint_ge [of w] sint_lt [of w] by (simp add: INT_MIN_def INT_MAX_def)

text \<open>
  Reading back what \<open><<\<close> printed for an \<open>int\<close>, after any whitespace and in front of
  a character that is no digit, stores the value and leaves the stream good.
\<close>

lemma extract_int_show_int:
  assumes "\<forall>x\<in>set ws. isspace x" and "\<not> isdigit c"
  shows "extract_int n (open_istream (ws @ show_int (sint w) @ c # rest)) =
           (w, open_istream (c # rest))"
proof -
  let ?i = "sint w"
  let ?text = "ws @ show_int ?i @ c # rest"
  have s: "sentry False (open_istream ?text) = (True, open_istream (show_int ?i @ c # rest))"
    using skip_to_show_int [OF assms(1), of ?i "c # rest"]
    by (simp add: sentry_def good_def open_istream_def Let_def)
  have g: "get_sign (show_int ?i @ c # rest) = (?i < 0, show_nat (nat \<bar>?i\<bar>) @ c # rest)"
    by (rule get_sign_show_int)
  have v: "(if ?i < 0 then - int (nat \<bar>?i\<bar>) else int (nat \<bar>?i\<bar>)) = ?i" by simp
  have r: "INT_MIN \<le> ?i \<and> ?i \<le> INT_MAX" by (rule sint_in_range)
  show ?thesis
    unfolding extract_int_def s
    using r v
    by (simp add: open_istream_def g scan_digits [OF assms(2)] dec_val_show_nat
        show_nat_not_Nil Let_def)
qed

lemma ignore_Cons: "ignore (open_istream (c # r)) = open_istream r"
  by (simp add: ignore_def sentry_def good_def open_istream_def)

lemma getline_line:
  assumes "nl \<notin> set d"
  shows "getline str (open_istream (d @ nl # rest)) = (d, open_istream rest)"
proof -
  have "takeWhile (\<lambda>c. c \<noteq> nl) (d @ nl # rest) = d"
    and "dropWhile (\<lambda>c. c \<noteq> nl) (d @ nl # rest) = nl # rest"
    using assms by (auto simp: takeWhile_tail dropWhile_append)
  then show ?thesis
    by (simp add: getline_def sentry_def good_def open_istream_def Let_def)
qed

lemma show_bool_show_int: "show_bool b = show_int (sint (if b then 1 else 0 :: cint))"
  by (simp add: show_bool_def show_int_def show_nat.simps digit_char_numeral)

section \<open>The loop of loadTasks\<close>

text \<open>One iteration on a line that \<open>saveTasks\<close> wrote, after any whitespace.\<close>

lemma loadTasks_loop_step:
  assumes "nl \<notin> set (description t)" and "\<forall>x\<in>set ws. isspace x"
  shows "loadTasks_loop i c d (open_istream (ws @ write_task t @ rest)) acc =
         loadTasks_loop (id' t) (if completed t then 1 else 0) (description t)
           (open_istream rest) (acc @ [t])"
proof -
  let ?flag = "if completed t then 1 else 0 :: cint"
  let ?r2 = "sp # description t @ nl # rest"
  let ?r1 = "sp # show_int (sint ?flag) @ ?r2"
  have nd: "\<not> isdigit sp" by (simp add: isdigit_def sp_def)
  have w_eq: "ws @ write_task t @ rest = ws @ show_int (sint (id' t)) @ ?r1"
    by (simp add: write_task_def show_bool_show_int getId_def isCompleted_def getDescription_def)
  have e1: "extract_int i (open_istream (ws @ write_task t @ rest)) = (id' t, open_istream ?r1)"
    unfolding w_eq using assms(2) nd by (rule extract_int_show_int)
  have e2: "extract_int c (open_istream ?r1) = (?flag, open_istream ?r2)"
    using extract_int_show_int [of "[sp]" sp c ?flag "description t @ nl # rest"] nd
    by (simp add: isspace_def sp_def)
  have ig: "ignore (open_istream ?r2) = open_istream (description t @ nl # rest)"
    by (rule ignore_Cons)
  have gl: "getline d (open_istream (description t @ nl # rest)) =
      (description t, open_istream rest)"
    using assms(1) by (rule getline_line)
  have tk: "(if ?flag \<noteq> 0 then toggleComplete (new_Task (id' t) (description t))
             else new_Task (id' t) (description t)) = t"
    by (cases t) (simp add: toggleComplete_def new_Task_def)
  have nf: "\<not> failbit (open_istream ?r2)" by (simp add: open_istream_def)
  show ?thesis
    by (subst loadTasks_loop.simps) (simp only: e1 e2 ig gl tk nf Let_def prod.case if_False)
qed

lemma extract_int_stream: "snd (extract_int n s) = snd (extract_int n' s)"
  by (simp add: extract_int_def Let_def split: prod.splits bool.splits)

lemma extract_int_value:
  "\<not> failbit (snd (extract_int n s)) \<Longrightarrow> fst (extract_int n s) = fst (extract_int n' s)"
  by (auto simp: extract_int_def sentry_def Let_def split: prod.splits bool.splits if_splits)

lemma extract_int_failed: "failbit s \<Longrightarrow> failbit (snd (extract_int n s))"
  by (simp add: extract_int_def sentry_def good_def)

lemma loop_condition_any:
  "loop_condition fin = (\<not> failbit (snd (extract_int c (snd (extract_int i fin)))))"
  unfolding loop_condition_def
  using extract_int_stream [of 0 fin i] extract_int_stream [of 0 "snd (extract_int i fin)" c]
  by simp

lemma loadTasks_loop_stop:
  assumes "\<not> loop_condition fin"
  shows "loadTasks_loop i c d fin acc = acc"
proof -
  have "failbit (snd (extract_int c (snd (extract_int i fin))))"
    using assms by (simp add: loop_condition_any [of fin c i])
  then show ?thesis
    by (subst loadTasks_loop.simps) (auto split: prod.splits)
qed

text \<open>The values of \<open>id\<close> and \<open>completed\<close> in front of the loop do not matter.\<close>

lemma loadTasks_loop_init: "loadTasks_loop i c d fin acc = loadTasks_loop i' c' d fin acc"
proof (cases "loop_condition fin")
  case False
  then show ?thesis by (simp add: loadTasks_loop_stop)
next
  case True
  obtain a f1 where e1: "extract_int i fin = (a, f1)" by (cases "extract_int i fin")
  obtain a' f1' where e1': "extract_int i' fin = (a', f1')" by (cases "extract_int i' fin")
  obtain b f2 where e2: "extract_int c f1 = (b, f2)" by (cases "extract_int c f1")
  obtain b' f2' where e2': "extract_int c' f1' = (b', f2')" by (cases "extract_int c' f1'")
  have f1: "f1' = f1" using extract_int_stream [of i fin i'] e1 e1' by simp
  have f2: "f2' = f2" using extract_int_stream [of c f1 c'] e2 e2' f1 by simp
  have ok2: "\<not> failbit f2" using True e1 e2 by (simp add: loop_condition_any [of fin c i])
  have ok1: "\<not> failbit f1" using ok2 extract_int_failed [of f1 c] e2 by auto
  have a: "a' = a" using extract_int_value [of i fin i'] ok1 e1 e1' by simp
  have b: "b' = b" using extract_int_value [of c f1 c'] ok2 e2 e2' f1 by simp
  show ?thesis
    by (subst loadTasks_loop.simps, subst (2) loadTasks_loop.simps)
       (simp add: e1 e1' e2 e2' [unfolded f1] f1 f2 a b)
qed

text \<open>
  On the lines \<open>saveTasks\<close> wrote for \<open>ts\<close> followed by any text, the loop appends
  \<open>ts\<close> and goes on with the rest; \<open>desc\<close> then holds the last description read.
\<close>

lemma loadTasks_loop_saved:
  assumes "\<forall>t\<in>set ts. nl \<notin> set (description t)"
  shows "loadTasks_loop i c d (open_istream (concat (map write_task ts) @ rest)) acc =
         loadTasks_loop 0 0 (if ts = [] then d else description (last ts))
           (open_istream rest) (acc @ ts)"
  using assms
proof (induction ts arbitrary: i c d acc)
  case Nil
  show ?case by (simp add: loadTasks_loop_init [of i c d _ acc 0 0])
next
  case (Cons t ts)
  have 1: "nl \<notin> set (description t)" using Cons.prems by simp
  have 2: "\<forall>t\<in>set ts. nl \<notin> set (description t)" using Cons.prems by simp
  have "loadTasks_loop i c d (open_istream (concat (map write_task (t # ts)) @ rest)) acc =
        loadTasks_loop (id' t) (if completed t then 1 else 0) (description t)
          (open_istream (concat (map write_task ts) @ rest)) (acc @ [t])"
    using loadTasks_loop_step [OF 1, of "[]" i c d "concat (map write_task ts) @ rest" acc]
    by simp
  also have "\<dots> = loadTasks_loop 0 0 (if ts = [] then description t else description (last ts))
          (open_istream rest) ((acc @ [t]) @ ts)"
    by (rule Cons.IH [OF 2])
  finally show ?case by simp
qed

lemma loop_condition_end: "\<not> loop_condition (open_istream [])"
  by (simp add: loop_condition_def extract_int_def sentry_def good_def open_istream_def)

text \<open>
  The condition is false on a text that, after its leading whitespace, is empty or starts
  with a character that is neither a digit nor a sign.
\<close>

lemma loop_condition_no_number:
  assumes "dropWhile isspace text = [] \<or>
           (\<exists>c r. dropWhile isspace text = c # r \<and> \<not> isdigit c \<and> c \<noteq> CHR ''-''
              \<and> c \<noteq> CHR ''+'')"
  shows "\<not> loop_condition (open_istream text)"
proof -
  have "failbit (snd (extract_int 0 (open_istream text)))"
    using assms
    by (auto simp: extract_int_def sentry_def good_def open_istream_def get_sign_def Let_def)
  then show ?thesis
    unfolding loop_condition_def using extract_int_failed by blast
qed

lemma single_line_all:
  "list_all single_line ts \<Longrightarrow> \<forall>t\<in>set ts. nl \<notin> set (description t)"
  by (simp add: list_all_iff single_line_def getDescription_def)

lemma write_ts_odd:
  "concat (map write_task ts_odd) =
     ''1 0 Buy  milk'' @ [nl] @ ''-5 1  2 0 x'' @ [nl] @ ''2147483647 0 '' @ [nl]"
  by (simp add: ts_odd_def write_task_def show_int_def show_nat.simps digit_char_numeral
      show_bool_def getId_def isCompleted_def getDescription_def sp_def)

lemma single_line_ts_odd: "list_all single_line ts_odd"
  by (simp add: ts_odd_def single_line_def getDescription_def nl_def)




section \<open>Saving and loading\<close>

text \<open>
  C1. For every sequence of tasks whose descriptions contain no newline character, saving
  it either throws, which happens only when the file does not open for writing, or gives
  a file from which loading yields the same sequence: the same ids, completion flags and
  descriptions in the same order.
\<close>

theorem save_load_roundtrip:
  assumes "list_all single_line ts"
  shows "case saveTasks fs h ts of
           Inl e \<Rightarrow> \<not> writable fs (filename h)
         | Inr fs' \<Rightarrow> loadTasks fs' h = ts"
proof (cases "writable fs (filename h)")
  case False
  then show ?thesis by (simp add: saveTasks_def)
next
  case True
  have "loadTasks_loop 0 0 [] (open_istream (concat (map write_task ts) @ [])) [] = ts"
    unfolding loadTasks_loop_saved [OF single_line_all [OF assms]]
    by (simp add: loadTasks_loop_stop loop_condition_end)
  then show ?thesis using True by (simp add: saveTasks_def loadTasks_def)
qed

theorem save_load_roundtrip_witness:
  "list_all single_line ts_odd \<and>
   saveTasks fs_fresh (new_FileHandler ''checklist.txt'') ts_odd =
     Inr (fs_fresh\<lparr>files := (files fs_fresh)(''checklist.txt'' \<mapsto>
       ''1 0 Buy  milk'' @ [nl] @ ''-5 1  2 0 x'' @ [nl] @ ''2147483647 0 '' @ [nl])\<rparr>) \<and>
   loadTasks (fs_fresh\<lparr>files := (files fs_fresh)(''checklist.txt'' \<mapsto>
       ''1 0 Buy  milk'' @ [nl] @ ''-5 1  2 0 x'' @ [nl] @ ''2147483647 0 '' @ [nl])\<rparr>)
     (new_FileHandler ''checklist.txt'') = ts_odd"
proof -
  have s: "saveTasks fs_fresh (new_FileHandler ''checklist.txt'') ts_odd =
     Inr (fs_fresh\<lparr>files := (files fs_fresh)(''checklist.txt'' \<mapsto>
       ''1 0 Buy  milk'' @ [nl] @ ''-5 1  2 0 x'' @ [nl] @ ''2147483647 0 '' @ [nl])\<rparr>)"
    unfolding saveTasks_def write_ts_odd by (simp add: fs_fresh_def new_FileHandler_def)
  show ?thesis
    using save_load_roundtrip [OF single_line_ts_odd, of fs_fresh "new_FileHandler ''checklist.txt''"]
    unfolding s by (simp add: single_line_ts_odd)
qed




section \<open>The next id\<close>

lemma std_max_sint: "sint (std_max a b) = max (sint a) (sint b)"
  by (simp add: std_max_def max_def)

lemma Max_insert_max:
  fixes a b :: int
  assumes "finite A"
  shows "Max (insert (max a b) A) = max a (Max (insert b A))"
  using assms by (cases "A = {}") (simp_all add: max.assoc)

lemma foldl_std_max:
  "sint (foldl (\<lambda>maxId task. std_max maxId (getId task)) a ts) =
     Max (insert (sint a) (ids_of ts))"
proof (induction ts arbitrary: a)
  case Nil
  show ?case by (simp add: ids_of_def)
next
  case (Cons t ts)
  show ?case using Cons.IH [of "std_max a (getId t)"]
    by (simp add: std_max_sint Max_insert_max ids_of_def)
qed

lemma sint_succ:
  assumes "sint (w :: cint) < INT_MAX"
  shows "sint (w + 1) = sint w + 1"
proof -
  have "sint (w + 1) = signed_take_bit 31 (sint w + 1)"
    by (simp add: sint_word_ariths)
  moreover have "- (2 ^ 31) \<le> sint w + 1" using sint_ge [of w] by simp
  moreover have "sint w + 1 < 2 ^ 31" using assms by (simp add: INT_MAX_def)
  ultimately show ?thesis by (simp add: signed_take_bit_int_eq_self)
qed

lemma sint_getNextId:
  assumes "list_all (\<lambda>t. sint (getId t) < INT_MAX) ts"
  shows "sint (getNextId ts) = Max (insert 0 (ids_of ts)) + 1"
proof -
  let ?m = "foldl (\<lambda>maxId task. std_max maxId (getId task)) 0 ts"
  have m: "sint ?m = Max (insert 0 (ids_of ts))"
    using foldl_std_max [of 0 ts] by simp
  have "\<forall>x \<in> insert 0 (ids_of ts). x < INT_MAX"
    using assms by (auto simp: list_all_iff INT_MAX_def ids_of_def)
  then have "Max (insert 0 (ids_of ts)) < INT_MAX"
    by (subst Max_less_iff) (auto simp: ids_of_def)
  then have "sint ?m < INT_MAX" using m by simp
  then show ?thesis using m by (simp add: getNextId_def sint_succ)
qed

text \<open>
  C4, as the claim states it, fails: loaded from a file whose only record has the id -5,
  the store has \<open>nextId\<close> 1, and one greater than the maximum id is -4; \<open>getNextId\<close>
  starts its maximum at 0. It fails as well for the id \<open>INT_MAX\<close>, where one greater
  than the maximum is no \<open>int\<close>: in the model \<open>maxId + 1\<close> wraps around to
  \<open>INT_MIN\<close>.
\<close>

theorem nextId_counterexample:
  "tasks (new_ChecklistManager fs_negative ''checklist.txt'') =
     [\<lparr>description = ''x'', completed = False, id' = - 5\<rparr>] \<and>
   sint (nextId (new_ChecklistManager fs_negative ''checklist.txt'')) = 1 \<and>
   Max (ids_of (tasks (new_ChecklistManager fs_negative ''checklist.txt''))) + 1 = - 4 \<and>
   tasks (new_ChecklistManager fs_largest ''checklist.txt'') =
     [\<lparr>description = ''x'', completed = False, id' = 2147483647\<rparr>] \<and>
   sint (nextId (new_ChecklistManager fs_largest ''checklist.txt'')) = - 2147483648 \<and>
   Max (ids_of (tasks (new_ChecklistManager fs_largest ''checklist.txt''))) + 1 = 2147483648"
proof -
  let ?a = "\<lparr>description = ''x'', completed = False, id' = - 5\<rparr>"
  let ?b = "\<lparr>description = ''x'', completed = False, id' = 2147483647\<rparr>"
  have wa: "write_task ?a = ''-5 0 x'' @ [nl]"
    by (simp add: write_task_def show_int_def show_nat.simps digit_char_numeral
        show_bool_def getId_def isCompleted_def getDescription_def sp_def)
  have wb: "write_task ?b = ''2147483647 0 x'' @ [nl]"
    by (simp add: write_task_def show_int_def show_nat.simps digit_char_numeral
        show_bool_def getId_def isCompleted_def getDescription_def sp_def)
  have la: "loadTasks_loop 0 0 [] (open_istream (''-5 0 x'' @ [nl])) [] = [?a]"
    using loadTasks_loop_saved [of "[?a]" 0 0 "[]" "[]" "[]"]
    by (simp add: wa nl_def loadTasks_loop_stop loop_condition_end)
  have lb: "loadTasks_loop 0 0 [] (open_istream (''2147483647 0 x'' @ [nl])) [] = [?b]"
    using loadTasks_loop_saved [of "[?b]" 0 0 "[]" "[]" "[]"]
    by (simp add: wb nl_def loadTasks_loop_stop loop_condition_end)
  have fa: "loadTasks fs_negative (new_FileHandler ''checklist.txt'') = [?a]"
    unfolding la [symmetric] by (simp add: loadTasks_def fs_negative_def new_FileHandler_def)
  have fb: "loadTasks fs_largest (new_FileHandler ''checklist.txt'') = [?b]"
    unfolding lb [symmetric] by (simp add: loadTasks_def fs_largest_def new_FileHandler_def)
  have ta: "tasks (new_ChecklistManager fs_negative ''checklist.txt'') = [?a]"
    unfolding new_ChecklistManager_def Let_def fa by simp
  have tb: "tasks (new_ChecklistManager fs_largest ''checklist.txt'') = [?b]"
    unfolding new_ChecklistManager_def Let_def fb by simp
  have na: "nextId (new_ChecklistManager fs_negative ''checklist.txt'') = 1"
    unfolding new_ChecklistManager_def Let_def fa
    by (simp add: getNextId_def std_max_def getId_def)
  have nb: "nextId (new_ChecklistManager fs_largest ''checklist.txt'') = 2147483648"
    unfolding new_ChecklistManager_def Let_def fb
    by (simp add: getNextId_def std_max_def getId_def)
  show ?thesis unfolding ta na tb nb by (simp add: ids_of_def getId_def)
qed

text \<open>
  C4, amended. When no loaded id is \<open>INT_MAX\<close>, the \<open>nextId\<close> of the constructed
  store is one greater than the maximum of 0 and the loaded ids: it is 1 when nothing was
  loaded, and one greater than the maximum id when some loaded id is not negative. The
  next task added receives that id.
\<close>

theorem nextId_after_load:
  assumes "list_all (\<lambda>t. sint (getId t) < INT_MAX) (tasks (new_ChecklistManager fs fname))"
  shows "sint (nextId (new_ChecklistManager fs fname)) =
           Max (insert 0 (ids_of (tasks (new_ChecklistManager fs fname)))) + 1 \<and>
         (tasks (new_ChecklistManager fs fname) = [] \<longrightarrow>
            nextId (new_ChecklistManager fs fname) = 1) \<and>
         ((\<exists>t \<in> set (tasks (new_ChecklistManager fs fname)). 0 \<le> sint (getId t)) \<longrightarrow>
            sint (nextId (new_ChecklistManager fs fname)) =
              Max (ids_of (tasks (new_ChecklistManager fs fname))) + 1) \<and>
         getId (last (tasks (snd (addTask d (new_ChecklistManager fs fname))))) =
           nextId (new_ChecklistManager fs fname)"
proof -
  let ?m = "new_ChecklistManager fs fname"
  have n: "nextId ?m = getNextId (tasks ?m)"
    by (simp add: new_ChecklistManager_def Let_def)
  have 1: "sint (nextId ?m) = Max (insert 0 (ids_of (tasks ?m))) + 1"
    unfolding n using assms by (rule sint_getNextId)
  have 2: "tasks ?m = [] \<longrightarrow> nextId ?m = 1"
    unfolding n by (simp add: getNextId_def)
  have 3: "(\<exists>t \<in> set (tasks ?m). 0 \<le> sint (getId t)) \<longrightarrow>
      sint (nextId ?m) = Max (ids_of (tasks ?m)) + 1"
  proof
    assume "\<exists>t \<in> set (tasks ?m). 0 \<le> sint (getId t)"
    then obtain t where t: "t \<in> set (tasks ?m)" "0 \<le> sint (getId t)" by blast
    have fin: "finite (ids_of (tasks ?m))" by (simp add: ids_of_def)
    have mem: "sint (getId t) \<in> ids_of (tasks ?m)" using t(1) by (simp add: ids_of_def)
    then have ne: "ids_of (tasks ?m) \<noteq> {}" by blast
    have "sint (getId t) \<le> Max (ids_of (tasks ?m))" using fin mem by (rule Max_ge)
    then have "0 \<le> Max (ids_of (tasks ?m))" using t(2) by simp
    then have "Max (insert 0 (ids_of (tasks ?m))) = Max (ids_of (tasks ?m))"
      using fin ne by simp
    then show "sint (nextId ?m) = Max (ids_of (tasks ?m)) + 1" using 1 by simp
  qed
  have 4: "getId (last (tasks (snd (addTask d ?m)))) = nextId ?m"
    by (simp add: addTask_def new_Task_def getId_def)
  show ?thesis using 1 2 3 4 by blast
qed

theorem nextId_after_load_witness:
  "list_all (\<lambda>t. sint (getId t) < INT_MAX) (tasks (new_ChecklistManager fs_371 ''checklist.txt'')) \<and>
   ids_of (tasks (new_ChecklistManager fs_371 ''checklist.txt'')) = {3, 7, 1} \<and>
   sint (nextId (new_ChecklistManager fs_371 ''checklist.txt'')) = 8 \<and>
   sint (getId (last (tasks (snd (addTask ''new'' (new_ChecklistManager fs_371 ''checklist.txt'')))))) = 8"
proof -
  have t: "tasks (new_ChecklistManager fs_371 ''checklist.txt'') =
     [\<lparr>description = ''a'', completed = False, id' = 3\<rparr>,
      \<lparr>description = ''b c'', completed = True, id' = 7\<rparr>,
      \<lparr>description = [], completed = False, id' = 1\<rparr>]"
    by code_simp
  have h: "list_all (\<lambda>t. sint (getId t) < INT_MAX)
      (tasks (new_ChecklistManager fs_371 ''checklist.txt''))"
    unfolding t by (simp add: getId_def INT_MAX_def)
  have i: "ids_of (tasks (new_ChecklistManager fs_371 ''checklist.txt'')) = {3, 7, 1}"
    unfolding t by (simp add: ids_of_def getId_def)
  show ?thesis
    using h nextId_after_load [OF h, of "''new''"] by (simp add: i)
qed

section \<open>Adding tasks\<close>

lemma addTasks_Cons:
  "fst (addTasks (d # ds) m) = fst (addTask d m) # fst (addTasks ds (snd (addTask d m)))"
  "snd (addTasks (d # ds) m) = snd (addTasks ds (snd (addTask d m)))"
  by (simp_all split: prod.splits)

lemma addTasks_fields:
  "fst (addTasks ds m) = replicate (length ds) (''Task added successfully!'' @ [nl]) \<and>
   length (tasks (snd (addTasks ds m))) = length (tasks m) + length ds \<and>
   nextId (snd (addTasks ds m)) = nextId m + of_nat (length ds) \<and>
   fileHandler (snd (addTasks ds m)) = fileHandler m"
proof (induction ds arbitrary: m)
  case Nil
  show ?case by simp
next
  case (Cons d ds)
  show ?case
    using Cons.IH [of "snd (addTask d m)"]
    by (simp add: addTasks_Cons del: addTasks.simps) (simp add: addTask_def)
qed

lemma addTasks_old:
  "k < length (tasks m) \<Longrightarrow> tasks (snd (addTasks ds m)) ! k = tasks m ! k"
proof (induction ds arbitrary: m)
  case Nil
  show ?case by simp
next
  case (Cons d ds)
  have "k < length (tasks (snd (addTask d m)))" using Cons.prems by (simp add: addTask_def)
  then have "tasks (snd (addTasks ds (snd (addTask d m)))) ! k = tasks (snd (addTask d m)) ! k"
    by (rule Cons.IH)
  then show ?case
    using Cons.prems by (simp add: addTasks_Cons addTask_def nth_append del: addTasks.simps)
qed

text \<open>The k-th call creates its task with the id \<open>nextId + k\<close>, in machine arithmetic.\<close>

lemma addTasks_new:
  "k < length ds \<Longrightarrow>
     tasks (snd (addTasks ds m)) ! (length (tasks m) + k) =
       new_Task (nextId m + of_nat k) (ds ! k)"
proof (induction ds arbitrary: m k)
  case Nil
  then show ?case by simp
next
  case (Cons d ds)
  let ?m1 = "snd (addTask d m)"
  have m1: "tasks ?m1 = tasks m @ [new_Task (nextId m) d]" "nextId ?m1 = nextId m + 1"
    by (simp_all add: addTask_def)
  show ?case
  proof (cases k)
    case 0
    have "tasks (snd (addTasks ds ?m1)) ! length (tasks m) = tasks ?m1 ! length (tasks m)"
      by (rule addTasks_old) (simp add: m1)
    then show ?thesis using 0 by (simp add: addTasks_Cons m1 del: addTasks.simps)
  next
    case (Suc j)
    then have j: "j < length ds" using Cons.prems by simp
    have "tasks (snd (addTasks ds ?m1)) ! (length (tasks ?m1) + j) =
          new_Task (nextId ?m1 + of_nat j) (ds ! j)"
      using j by (rule Cons.IH)
    then show ?thesis using Suc by (simp add: addTasks_Cons m1 add.assoc del: addTasks.simps)
  qed
qed

lemma sint_of_nat_small:
  assumes "n \<le> nat INT_MAX"
  shows "sint (of_nat n :: cint) = int n"
proof -
  have "sint (of_nat n :: cint) = sint (word_of_int (int n) :: cint)" by simp
  also have "\<dots> = signed_take_bit 31 (int n)" by (simp only: sint_sbintrunc') simp
  also have "\<dots> = int n"
    using assms by (intro signed_take_bit_int_eq_self) (simp_all add: INT_MAX_def)
  finally show ?thesis .
qed

lemma m_empty_fields: "tasks m_empty = [] \<and> nextId m_empty = 1"
  by (simp add: m_empty_def new_ChecklistManager_def loadTasks_def fs_none_def
      new_FileHandler_def getNextId_def Let_def)

text \<open>
  C5, as the claim states it, fails for N = 2147483648, one more than \<open>INT_MAX\<close>: an
  \<open>int\<close> cannot hold the id 2147483648. In the model, where \<open>nextId++\<close> wraps around,
  the last of that many tasks added to the empty store has the id -2147483648.
\<close>

theorem addTask_ids_counterexample:
  "tasks m_empty = [] \<and> nextId m_empty = 1 \<and>
   sint (getId (tasks (snd (addTasks (replicate 2147483648 []) m_empty)) ! 2147483647))
     = - 2147483648"
proof -
  have "tasks (snd (addTasks (replicate 2147483648 []) m_empty))
          ! (length (tasks m_empty) + 2147483647)
      = new_Task (nextId m_empty + of_nat 2147483647) (replicate 2147483648 [] ! 2147483647)"
    by (rule addTasks_new) simp
  then show ?thesis using m_empty_fields by (simp add: new_Task_def getId_def)
qed

text \<open>
  C5, amended. For every N up to \<open>INT_MAX\<close>, calling \<open>addTask\<close> N times in a row on
  an empty store whose \<open>nextId\<close> is 1 succeeds each time and leaves exactly N tasks: the
  task of call k (counted from 0) has the description given, \<open>completed = false\<close> and
  the id k + 1, so the ids are 1 to N in call order.
\<close>

theorem addTask_ids:
  assumes "tasks m = []" and "nextId m = 1" and "length ds \<le> nat INT_MAX"
  shows "fst (addTasks ds m) = replicate (length ds) (''Task added successfully!'' @ [nl]) \<and>
         length (tasks (snd (addTasks ds m))) = length ds \<and>
         (\<forall>k < length ds.
            tasks (snd (addTasks ds m)) ! k =
              \<lparr>description = ds ! k, completed = False, id' = of_nat (k + 1)\<rparr> \<and>
            sint (getId (tasks (snd (addTasks ds m)) ! k)) = int k + 1)"
proof -
  have new: "\<forall>k < length ds. tasks (snd (addTasks ds m)) ! k =
      \<lparr>description = ds ! k, completed = False, id' = of_nat (k + 1)\<rparr>"
    using addTasks_new [of _ ds m] assms(1,2) by (simp add: new_Task_def add.commute)
  have "\<forall>k < length ds. sint (of_nat (k + 1) :: cint) = int k + 1"
  proof (intro allI impI)
    fix k
    assume "k < length ds"
    then have "k + 1 \<le> nat INT_MAX" using assms(3) by simp
    then have "sint (of_nat (k + 1) :: cint) = int (k + 1)" by (rule sint_of_nat_small)
    then show "sint (of_nat (k + 1) :: cint) = int k + 1" by simp
  qed
  then show ?thesis using new addTasks_fields [of ds m] assms(1) by (simp add: getId_def)
qed

theorem addTask_ids_witness:
  "tasks m_empty = [] \<and> nextId m_empty = 1 \<and> length [''a'', ''b'', ''c''] \<le> nat INT_MAX \<and>
   fst (addTasks [''a'', ''b'', ''c''] m_empty) =
     replicate 3 (''Task added successfully!'' @ [nl]) \<and>
   tasks (snd (addTasks [''a'', ''b'', ''c''] m_empty)) =
     [\<lparr>description = ''a'', completed = False, id' = 1\<rparr>,
      \<lparr>description = ''b'', completed = False, id' = 2\<rparr>,
      \<lparr>description = ''c'', completed = False, id' = 3\<rparr>]"
proof -
  have h1: "tasks m_empty = []" and h2: "nextId m_empty = 1"
    using m_empty_fields by simp_all
  have h3: "length [''a'', ''b'', ''c''] \<le> nat INT_MAX" by (simp add: INT_MAX_def)
  have e: "tasks (snd (addTasks [''a'', ''b'', ''c''] m_empty)) =
     [\<lparr>description = ''a'', completed = False, id' = 1\<rparr>,
      \<lparr>description = ''b'', completed = False, id' = 2\<rparr>,
      \<lparr>description = ''c'', completed = False, id' = 3\<rparr>]"
    by (simp add: addTask_def new_Task_def h1 h2)
  show ?thesis using h1 h2 h3 e addTask_ids [OF h1 h2 h3] by (simp add: numeral_3_eq_3)
qed

section \<open>The exit code\<close>

lemma op_fileHandler:
  "fileHandler (snd (addTask d m)) = fileHandler m"
  "fileHandler (snd (removeTask i m)) = fileHandler m"
  "fileHandler (snd (toggleTask i m)) = fileHandler m"
  by (simp_all add: addTask_def removeTask_def toggleTask_def Let_def split: prod.splits)

text \<open>The loop never touches the file handler of the manager.\<close>

lemma run_fileHandler:
  "run fuel junk choice input menu cin cout = Some (menu', cin', cout') \<Longrightarrow>
     fileHandler (manager menu') = fileHandler (manager menu)"
proof (induction fuel arbitrary: choice input menu cin cout)
  case 0
  then show ?case by simp
next
  case (Suc fuel)
  obtain choice1 cin1 where e: "extract_int choice cin = (choice1, cin1)"
    by (cases "extract_int choice cin")
  note r = Suc.prems [unfolded run.simps e prod.case Let_def]
  have step: "fileHandler (manager menu') = fileHandler (manager menu)"
    if "run fuel junk c i menu1 cin2 cout2 = Some (menu', cin', cout')"
      and "fileHandler (manager menu1) = fileHandler (manager menu)"
    for c i menu1 cin2 cout2
    using Suc.IH [OF that(1)] that(2) by simp
  consider "choice1 = 1" | "choice1 = 2" | "choice1 = 3" | "choice1 = 4" | "choice1 = 5"
    | "choice1 \<noteq> 1 \<and> choice1 \<noteq> 2 \<and> choice1 \<noteq> 3 \<and> choice1 \<noteq> 4 \<and> choice1 \<noteq> 5"
    by blast
  then show ?case
  proof cases
    case 1
    obtain input1 cin3 where g: "getline input (ignore cin1) = (input1, cin3)"
      by (cases "getline input (ignore cin1)")
    obtain msg m where a: "addTask input1 (manager menu) = (msg, m)"
      by (cases "addTask input1 (manager menu)")
    have "fileHandler m = fileHandler (manager menu)"
      using op_fileHandler(1) [of input1 "manager menu"] a by simp
    then show ?thesis using r 1 g a step [of choice1 input1 "menu\<lparr>manager := m\<rparr>"] by simp
  next
    case 2
    obtain i cin3 where g: "extract_int junk (ignore cin1) = (i, cin3)"
      by (cases "extract_int junk (ignore cin1)")
    obtain msg m where a: "removeTask i (manager menu) = (msg, m)"
      by (cases "removeTask i (manager menu)")
    have "fileHandler m = fileHandler (manager menu)"
      using op_fileHandler(2) [of i "manager menu"] a by simp
    then show ?thesis using r 2 g a step [of choice1 input "menu\<lparr>manager := m\<rparr>"] by simp
  next
    case 3
    obtain i cin3 where g: "extract_int junk (ignore cin1) = (i, cin3)"
      by (cases "extract_int junk (ignore cin1)")
    obtain msg m where a: "toggleTask i (manager menu) = (msg, m)"
      by (cases "toggleTask i (manager menu)")
    have "fileHandler m = fileHandler (manager menu)"
      using op_fileHandler(3) [of i "manager menu"] a by simp
    then show ?thesis using r 3 g a step [of choice1 input "menu\<lparr>manager := m\<rparr>"] by simp
  next
    case 4
    then show ?thesis using r step [of choice1 input menu] by simp
  next
    case 5
    then show ?thesis using r by auto
  next
    case 6
    then show ?thesis using r step [of choice1 input menu] by simp
  qed
qed

text \<open>On the input "5" the loop returns at once, whatever the store holds.\<close>

lemma extract_five:
  "extract_int n (open_istream (''5'' @ nl # rest)) = (5, open_istream (nl # rest))"
proof -
  have s: "show_int 5 = ''5''"
    by (simp add: show_int_def show_nat.simps digit_char_numeral)
  have "\<not> isdigit nl" by (simp add: isdigit_def nl_def)
  then show ?thesis
    using extract_int_show_int [of "[]" nl n 5 rest] by (simp add: s)
qed

lemma run_exit:
  "run (Suc fuel) junk choice input menu (open_istream (''5'' @ nl # rest)) cout =
     Some (menu, open_istream rest, cout @ displayMenu @ ''Saving and exiting...'' @ [nl])"
  unfolding run.simps extract_five by (simp add: ignore_Cons)

text \<open>
  C9, as the claim states it, fails: with a file path that does not open for writing and
  the input "5", \<open>main\<close> returns 0, not 1, and the failure of the save is on
  \<open>std::cerr\<close>. The destructor of the store catches the exception.
\<close>

theorem exit_code_unwritable_counterexample:
  "\<not> writable fs_none ''checklist.txt'' \<and>
   map_option (\<lambda>(r, fs'). (exit_code r, cerr_text r)) (main 1 0 0 fs_none (''5'' @ [nl])) =
     Some (0, ''Error saving tasks: Unable to open file for writing'' @ [nl])"
  by code_simp

text \<open>
  C9, amended. Whenever \<open>main\<close> returns, its exit code is 0, also when the file path
  does not open for writing at shutdown: then the report of the failed save is on
  \<open>std::cerr\<close> and the file system is as it was; when the path opens, nothing is
  written to \<open>std::cerr\<close>. And \<open>main\<close> does return, with exit code 0, on every
  input that starts with the line "5", for every file system. Exit code 1 needs an
  exception that reaches the handler of \<open>main\<close>, which no operation of the model
  throws.
\<close>

theorem exit_code_zero:
  "(\<forall>r fs'. main fuel choice0 junk fs stdin = Some (r, fs') \<longrightarrow>
      exit_code r = 0 \<and>
      (if writable fs ''checklist.txt'' then cerr_text r = []
       else cerr_text r = ''Error saving tasks: Unable to open file for writing'' @ [nl]
            \<and> fs' = fs)) \<and>
   (\<exists>r fs'. main (Suc fuel) choice0 junk fs (''5'' @ nl # rest) = Some (r, fs') \<and>
      exit_code r = 0)"
proof (intro conjI allI impI)
  fix r fs'
  assume m: "main fuel choice0 junk fs stdin = Some (r, fs')"
  let ?menu = "new_Menu fs ''checklist.txt''"
  obtain menu' cin' cout' where
    run: "run fuel junk choice0 [] ?menu (open_istream stdin) [] = Some (menu', cin', cout')"
    using m by (auto simp: main_def main_try_def Let_def split: option.splits)
  have "fileHandler (manager menu') = fileHandler (manager ?menu)"
    using run by (rule run_fileHandler)
  then have fh: "filename (fileHandler (manager menu')) = ''checklist.txt''"
    by (simp add: new_Menu_def new_ChecklistManager_def new_FileHandler_def Let_def)
  show "exit_code r = 0"
    using m by (auto simp: main_def main_try_def run Let_def split: prod.splits sum.splits)
  show "if writable fs ''checklist.txt'' then cerr_text r = []
       else cerr_text r = ''Error saving tasks: Unable to open file for writing'' @ [nl]
            \<and> fs' = fs"
    using m fh
    by (auto simp: main_def main_try_def run Let_def delete_ChecklistManager_def saveTasks_def
        split: prod.splits sum.splits if_splits)
next
  show "\<exists>r fs'. main (Suc fuel) choice0 junk fs (''5'' @ nl # rest) = Some (r, fs') \<and>
      exit_code r = 0"
    unfolding main_def main_try_def Let_def run_exit
    by (simp split: prod.splits)
qed

theorem exit_code_zero_witness:
  "\<exists>r fs'. main 3 0 0 fs_fresh (''1'' @ [nl] @ ''hello'' @ [nl] @ ''5'' @ [nl]) = Some (r, fs') \<and>
     exit_code r = 0 \<and> cerr_text r = [] \<and>
     files fs' ''checklist.txt'' = Some (''1 0 hello'' @ [nl])"
proof -
  have "map_option (\<lambda>(r, fs'). (exit_code r, cerr_text r, files fs' ''checklist.txt''))
      (main 3 0 0 fs_fresh (''1'' @ [nl] @ ''hello'' @ [nl] @ ''5'' @ [nl])) =
      Some (0, [], Some (''1 0 hello'' @ [nl]))"
    by code_simp
  then obtain r fs' where
    m: "main 3 0 0 fs_fresh (''1'' @ [nl] @ ''hello'' @ [nl] @ ''5'' @ [nl]) = Some (r, fs')"
    and f: "files fs' ''checklist.txt'' = Some (''1 0 hello'' @ [nl])"
    by auto
  have w: "writable fs_fresh ''checklist.txt''" by (simp add: fs_fresh_def)
  show ?thesis
    using m f w
      exit_code_zero [of 3 0 0 fs_fresh "''1'' @ [nl] @ ''hello'' @ [nl] @ ''5'' @ [nl]"]
    by simp
qed

end
